theory Spec2Isabelle
  imports Complex_Main "HOL-Library.Multiset" "HOL-Library.Log_Nat"
begin

section \<open>Data model of \<open>kdt::KDTree\<close>\<close>

text \<open>
  The class template \<open>KDTree<PointT>\<close> only asks of \<open>PointT\<close> a constant \<open>PointT::DIM\<close> and
  an \<open>operator[]\<close> giving the coordinate on an axis.  A point is therefore modelled by its
  coordinate accessor, and \<open>DIM\<close> is a parameter of every function that uses it.
  A coordinate is a finite \<open>double\<close> and is modelled by the real number it denotes; the
  build and the validator only compare coordinates.  What the queries compute from the
  coordinates in \<open>double\<close> arithmetic is rounded, and is modelled apart (section Queries).

  Indices and counters are \<open>int\<close> in the source.  They never become negative on the paths
  modelled here and would only overflow with more than \<open>2^31\<close> points, so they are natural
  numbers in the model.
\<close>

type_synonym point = "nat \<Rightarrow> real"

definition point_of :: "real list \<Rightarrow> point" where
  "point_of cs = (\<lambda>i. if i < length cs then cs ! i else 0)"

text \<open>\<open>struct Node\<close>: a null pointer is \<open>Null\<close>; \<open>next0\<close> and \<open>next1\<close> are \<open>next[0]\<close> and \<open>next[1]\<close>.\<close>

datatype node = Null | Node (idx: nat) (next0: node) (next1: node) (axis: nat)

text \<open>The two data members \<open>root_\<close> and \<open>points_\<close> of the class.\<close>

record kdtree =
  root :: node
  points :: "point list"

section \<open>\<open>std::nth_element\<close>\<close>

text \<open>
  \<open>buildRecursive\<close> calls \<open>std::nth_element\<close>, which is not part of the repository.  It is a
  parameter of the model: a function from the comparator, the position \<open>nth\<close> and the contents
  of the range \<open>[first, last)\<close> to the rearranged contents.  \<open>nth_element_post\<close> is what the C++
  standard promises of it: the result is a permutation of the range, no element at or after
  position \<open>nth\<close> is less than an element before it, and the element at position \<open>nth\<close> is
  the one that a sort would put there, so that no element after it is less than it.
  \<open>nth_element_ok\<close> says that a selector keeps this promise for every comparator that compares
  a real-valued key, which is the shape of the lambda in \<open>buildRecursive\<close>.
\<close>

type_synonym selector = "(nat \<Rightarrow> nat \<Rightarrow> bool) \<Rightarrow> nat \<Rightarrow> nat list \<Rightarrow> nat list"

definition nth_element_post :: "(nat \<Rightarrow> nat \<Rightarrow> bool) \<Rightarrow> nat \<Rightarrow> nat list \<Rightarrow> nat list \<Rightarrow> bool" where
  "nth_element_post cmp n xs ys \<longleftrightarrow>
     mset ys = mset xs \<and>
     (\<forall>i j. i < n \<and> n \<le> j \<and> j < length ys \<longrightarrow> \<not> cmp (ys ! j) (ys ! i)) \<and>
     (\<forall>j. n \<le> j \<and> j < length ys \<longrightarrow> \<not> cmp (ys ! j) (ys ! n))"

definition nth_element_ok :: "selector \<Rightarrow> bool" where
  "nth_element_ok nth_element \<longleftrightarrow>
     (\<forall>(key :: nat \<Rightarrow> real) n xs. n < length xs \<longrightarrow>
        nth_element_post (\<lambda>lhs rhs. key lhs < key rhs) n xs
          (nth_element (\<lambda>lhs rhs. key lhs < key rhs) n xs))"

text \<open>
  One selector that meets the postcondition, used to run the model on concrete inputs: it
  sorts the whole range by insertion with the given comparator.
\<close>

fun insert_by :: "(nat \<Rightarrow> nat \<Rightarrow> bool) \<Rightarrow> nat \<Rightarrow> nat list \<Rightarrow> nat list" where
  "insert_by cmp x [] = [x]"
| "insert_by cmp x (y # ys) = (if cmp x y then x # y # ys else y # insert_by cmp x ys)"

definition sort_select :: selector where
  "sort_select cmp n xs = foldr (insert_by cmp) xs []"

section \<open>Building the tree\<close>

text \<open>
  \<open>buildRecursive(indices, npoints, depth)\<close> works in place on the range
  \<open>indices[0 .. npoints)\<close>.  The model passes the array from the pointer onwards as a list
  and returns only the node: the left call permutes \<open>[0, mid)\<close> and the right call
  \<open>[mid + 1, npoints)\<close>, two ranges that do not overlap and do not contain position \<open>mid\<close>,
  which has been read before, so the final contents of the array are used by nobody.
\<close>

definition axis_less :: "point list \<Rightarrow> nat \<Rightarrow> nat \<Rightarrow> nat \<Rightarrow> bool" where
  "axis_less ps ax lhs rhs \<longleftrightarrow> (ps ! lhs) ax < (ps ! rhs) ax"

function buildRecursive :: "nat \<Rightarrow> selector \<Rightarrow> point list \<Rightarrow> nat list \<Rightarrow> nat \<Rightarrow> nat \<Rightarrow> node" where
  "buildRecursive DIM nth_element ps indices npoints depth =
     (if npoints \<le> 0 then Null
      else
        let ax = depth mod DIM;
            mid = (npoints - 1) div 2;
            indices' = nth_element (axis_less ps ax) mid (take npoints indices) @ drop npoints indices
        in Node (indices' ! mid)
             (buildRecursive DIM nth_element ps indices' mid (depth + 1))
             (buildRecursive DIM nth_element ps (drop (mid + 1) indices') (npoints - mid - 1) (depth + 1))
             ax)"
  by pat_completeness auto
termination
  by (relation "measure (\<lambda>(DIM, nth_element, ps, indices, npoints, depth). npoints)") auto

declare buildRecursive.simps [simp del]

definition build :: "nat \<Rightarrow> selector \<Rightarrow> point list \<Rightarrow> kdtree" where
  "build DIM nth_element ps =
     \<lparr>root = buildRecursive DIM nth_element ps [0..<length ps] (length ps) 0, points = ps\<rparr>"

section \<open>Validation\<close>

text \<open>
  \<open>validateRecursive\<close> throws \<open>Exception\<close> at the first node that violates the check and
  \<open>validate\<close> catches it.  The exception is a value here: \<open>Inl Exception\<close>.
\<close>

datatype exception = Exception

fun validateRecursive :: "point list \<Rightarrow> node \<Rightarrow> nat \<Rightarrow> exception + unit" where
  "validateRecursive ps Null depth = Inr ()"
| "validateRecursive ps (Node i node0 node1 ax) depth =
     (if node0 \<noteq> Null \<and> node1 \<noteq> Null \<and> (ps ! i) ax < (ps ! idx node0) ax then Inl Exception
      else if node0 \<noteq> Null \<and> node1 \<noteq> Null \<and> (ps ! i) ax > (ps ! idx node1) ax then Inl Exception
      else
        case (if node0 \<noteq> Null then validateRecursive ps node0 (depth + 1) else Inr ()) of
          Inl e \<Rightarrow> Inl e
        | Inr u \<Rightarrow> (if node1 \<noteq> Null then validateRecursive ps node1 (depth + 1) else Inr ()))"

definition validate :: "kdtree \<Rightarrow> bool" where
  "validate t = (case validateRecursive (points t) (root t) 0 of Inl e \<Rightarrow> False | Inr u \<Rightarrow> True)"

section \<open>Queries\<close>

subsection \<open>Values and arithmetic of type \<open>double\<close>\<close>

text \<open>
  The queries compute distances in \<open>double\<close> arithmetic: \<open>p[i] - q[i]\<close>, the product of two
  such differences, the running sum \<open>dist += ...\<close> and \<open>sqrt\<close>.  Each of these operations
  rounds its result and may overflow to an infinity or underflow to zero.  A computed value
  is therefore of the type \<open>double\<close> below, a finite number or one of the two infinities, with
  the order of \<open>operator<\<close>.  (A NaN does not arise from finite coordinates here: no
  infinity is subtracted from an infinity, no infinity is multiplied by zero, and the square
  root is taken of a sum of squares.)

  The four rounding operations are parameters of the model, the record \<open>fp\<close>, and nothing
  is assumed of them: every statement about the queries below holds whatever the arithmetic
  does, and none of them relates a computed distance to the Euclidean distance.  \<open>fabs\<close>
  only clears the sign and is exact.  The radius of a range query is a value of the same
  type; a NaN passed as radius is not modelled.
\<close>

datatype double = MinusInf | Finite real | PlusInf

instantiation double :: linorder
begin

definition less_eq_double :: "double \<Rightarrow> double \<Rightarrow> bool" where
  "less_eq_double x y =
     (case x of
        MinusInf \<Rightarrow> True
      | Finite a \<Rightarrow> (case y of MinusInf \<Rightarrow> False | Finite b \<Rightarrow> a \<le> b | PlusInf \<Rightarrow> True)
      | PlusInf \<Rightarrow> (case y of PlusInf \<Rightarrow> True | _ \<Rightarrow> False))"

definition less_double :: "double \<Rightarrow> double \<Rightarrow> bool" where
  "less_double x y = (x \<le> y \<and> \<not> y \<le> (x::double))"

instance
  by standard (auto simp: less_eq_double_def less_double_def split: double.splits)

end

record fp =
  fsub :: "real \<Rightarrow> real \<Rightarrow> double"
  fmul :: "double \<Rightarrow> double \<Rightarrow> double"
  fadd :: "double \<Rightarrow> double \<Rightarrow> double"
  fsqrt :: "double \<Rightarrow> double"

definition fabs :: "double \<Rightarrow> double" where
  "fabs x = (case x of MinusInf \<Rightarrow> PlusInf | Finite a \<Rightarrow> Finite \<bar>a\<bar> | PlusInf \<Rightarrow> PlusInf)"

text \<open>\<open>std::numeric_limits<double>::max()\<close>, the largest finite \<open>double\<close>.\<close>

definition DBL_MAX :: double where
  "DBL_MAX = Finite ((2 ^ 53 - 1) * 2 ^ 971)"

text \<open>
  The loop of \<open>distance\<close> is a fold over the axes \<open>0, ..., DIM - 1\<close>, from \<open>double dist = 0\<close>.
\<close>

definition distance :: "fp \<Rightarrow> nat \<Rightarrow> point \<Rightarrow> point \<Rightarrow> double" where
  "distance ar DIM p q =
     fsqrt ar (fold (\<lambda>i dist. fadd ar dist (fmul ar (fsub ar (p i) (q i)) (fsub ar (p i) (q i))))
                 [0..<DIM] (Finite 0))"

subsection \<open>Nearest neighbour\<close>

text \<open>
  \<open>nnSearchRecursive\<close> updates \<open>*guess\<close> and \<open>*minDist\<close> through pointers; the model passes the
  pair and returns it.  \<open>nnSearch\<close> declares \<open>int guess;\<close> without an initial value, so the
  guess is \<open>None\<close> until a node has been assigned to it.  The model of \<open>nnSearch\<close> returns
  the guess together with the minimal distance that the source writes to \<open>*minDist\<close>.
\<close>

fun nnSearchRecursive ::
  "fp \<Rightarrow> nat \<Rightarrow> point list \<Rightarrow> point \<Rightarrow> node \<Rightarrow> nat option \<times> double \<Rightarrow> nat option \<times> double" where
  "nnSearchRecursive ar DIM ps query Null st = st"
| "nnSearchRecursive ar DIM ps query (Node i node0 node1 ax) (guess, minDist) =
     (let train = ps ! i;
          dist = distance ar DIM query train;
          st1 = (if dist < minDist then (Some i, dist) else (guess, minDist));
          st2 = nnSearchRecursive ar DIM ps query (if query ax < train ax then node0 else node1) st1;
          diff = fabs (fsub ar (query ax) (train ax))
      in if diff < snd st2
         then nnSearchRecursive ar DIM ps query (if query ax < train ax then node1 else node0) st2
         else st2)"

definition nnSearch :: "fp \<Rightarrow> nat \<Rightarrow> kdtree \<Rightarrow> point \<Rightarrow> nat option \<times> double" where
  "nnSearch ar DIM t query = nnSearchRecursive ar DIM (points t) query (root t) (None, DBL_MAX)"

subsection \<open>\<open>BoundedPriorityQueue\<close>\<close>

text \<open>
  \<open>BoundedPriorityQueue<T, Compare>\<close> is a template; it is used as \<open>KnnQueue\<close>, with
  \<open>T = std::pair<double, int>\<close> and the default comparison \<open>std::less\<close>, that is \<open>operator<\<close> of
  \<open>std::pair\<close>: lexicographic on distance, then index.  The model keeps the type of the
  distance open (any linear order) and fixes the pairing with an index.
\<close>

record 'a bounded_priority_queue =
  bound :: nat
  elements :: "('a \<times> nat) list"

definition less_pair :: "'a::linorder \<times> nat \<Rightarrow> 'a \<times> nat \<Rightarrow> bool" where
  "less_pair x y \<longleftrightarrow> fst x < fst y \<or> (\<not> fst y < fst x \<and> snd x < snd y)"

text \<open>\<open>std::find_if\<close>: the position of the first element that satisfies the predicate, the
  length of the list when there is none.\<close>

fun find_if :: "('a \<Rightarrow> bool) \<Rightarrow> 'a list \<Rightarrow> nat" where
  "find_if P [] = 0"
| "find_if P (x # xs) = (if P x then 0 else 1 + find_if P xs)"

definition push :: "'a::linorder \<times> nat \<Rightarrow> 'a bounded_priority_queue \<Rightarrow> 'a bounded_priority_queue" where
  "push val q =
     (let it = find_if (\<lambda>element. less_pair val element) (elements q);
          es = take it (elements q) @ val # drop it (elements q)
      in q\<lparr>elements := (if length es > bound q then take (bound q) es else es)\<rparr>)"

text \<open>
  \<open>back()\<close> is \<open>elements_.back()\<close>, which is undefined on an empty vector.  The model makes
  that a fault.  (\<open>back\<close> is a keyword of Isabelle, hence the name \<open>queue_back\<close>.)
\<close>

datatype fault = Back_Of_Empty

definition queue_back :: "'a bounded_priority_queue \<Rightarrow> fault + 'a \<times> nat" where
  "queue_back q = (if elements q = [] then Inl Back_Of_Empty else Inr (last (elements q)))"

subsection \<open>k nearest neighbours\<close>

text \<open>
  The parameter \<open>k\<close> is an \<open>int\<close> in the source and a natural number here, as in the
  interface of the specification; a negative \<open>k\<close> is not modelled.  The test
  \<open>(int)queue.size() < k || diff < queue.back().first\<close> evaluates \<open>back()\<close> only when the first
  disjunct is false.
\<close>

fun knnSearchRecursive ::
  "fp \<Rightarrow> nat \<Rightarrow> point list \<Rightarrow> point \<Rightarrow> node \<Rightarrow> double bounded_priority_queue \<Rightarrow> nat
     \<Rightarrow> fault + double bounded_priority_queue" where
  "knnSearchRecursive ar DIM ps query Null queue k = Inr queue"
| "knnSearchRecursive ar DIM ps query (Node i node0 node1 ax) queue k =
     (let train = ps ! i;
          dist = distance ar DIM query train;
          queue1 = push (dist, i) queue
      in case knnSearchRecursive ar DIM ps query (if query ax < train ax then node0 else node1) queue1 k of
           Inl f \<Rightarrow> Inl f
         | Inr queue2 \<Rightarrow>
             (let diff = fabs (fsub ar (query ax) (train ax)) in
              if length (elements queue2) < k
              then knnSearchRecursive ar DIM ps query (if query ax < train ax then node1 else node0) queue2 k
              else
                (case queue_back queue2 of
                   Inl f \<Rightarrow> Inl f
                 | Inr worst \<Rightarrow>
                     if diff < fst worst
                     then knnSearchRecursive ar DIM ps query (if query ax < train ax then node1 else node0) queue2 k
                     else Inr queue2)))"

definition knnSearch :: "fp \<Rightarrow> nat \<Rightarrow> kdtree \<Rightarrow> point \<Rightarrow> nat \<Rightarrow> fault + nat list" where
  "knnSearch ar DIM t query k =
     (case knnSearchRecursive ar DIM (points t) query (root t) \<lparr>bound = k, elements = []\<rparr> k of
        Inl f \<Rightarrow> Inl f
      | Inr queue \<Rightarrow> Inr (map snd (elements queue)))"

subsection \<open>Range query\<close>

text \<open>The parameter \<open>range\<close> of the source is called \<open>radius\<close> here.\<close>

fun rangequeryRecursive ::
  "fp \<Rightarrow> nat \<Rightarrow> point list \<Rightarrow> point \<Rightarrow> node \<Rightarrow> nat list \<Rightarrow> double \<Rightarrow> nat list" where
  "rangequeryRecursive ar DIM ps query Null indices radius = indices"
| "rangequeryRecursive ar DIM ps query (Node i node0 node1 ax) indices radius =
     (let train = ps ! i;
          dist = distance ar DIM query train;
          indices1 = (if dist < radius then indices @ [i] else indices);
          indices2 = rangequeryRecursive ar DIM ps query (if query ax < train ax then node0 else node1) indices1 radius;
          diff = fabs (fsub ar (query ax) (train ax))
      in if diff < radius
         then rangequeryRecursive ar DIM ps query (if query ax < train ax then node1 else node0) indices2 radius
         else indices2)"

definition rangequery :: "fp \<Rightarrow> nat \<Rightarrow> kdtree \<Rightarrow> point \<Rightarrow> double \<Rightarrow> nat list" where
  "rangequery ar DIM t query radius = rangequeryRecursive ar DIM (points t) query (root t) [] radius"

section \<open>Observations on trees\<close>

fun node_indices :: "node \<Rightarrow> nat list" where
  "node_indices Null = []"
| "node_indices (Node i l r a) = i # node_indices l @ node_indices r"

fun levels :: "node \<Rightarrow> nat" where
  "levels Null = 0"
| "levels (Node i l r a) = 1 + max (levels l) (levels r)"

text \<open>
  The partition property of a tree over the point array \<open>ps\<close>, in two versions.
  \<open>partition_claimed\<close> follows the words of the specification: at every node, every point of
  the left subtree has a coordinate on the node's axis that is smaller than or equal to the
  pivot's, and every point of the right subtree one that is strictly greater.
  \<open>partition_inv\<close> asks of the right subtree only that no coordinate is smaller than the pivot's.
\<close>

fun partition_inv :: "point list \<Rightarrow> node \<Rightarrow> bool" where
  "partition_inv ps Null = True"
| "partition_inv ps (Node i l r a) \<longleftrightarrow>
     (\<forall>j \<in> set (node_indices l). (ps ! j) a \<le> (ps ! i) a) \<and>
     (\<forall>j \<in> set (node_indices r). (ps ! i) a \<le> (ps ! j) a) \<and>
     partition_inv ps l \<and> partition_inv ps r"

fun partition_claimed :: "point list \<Rightarrow> node \<Rightarrow> bool" where
  "partition_claimed ps Null = True"
| "partition_claimed ps (Node i l r a) \<longleftrightarrow>
     (\<forall>j \<in> set (node_indices l). (ps ! j) a \<le> (ps ! i) a) \<and>
     (\<forall>j \<in> set (node_indices r). (ps ! i) a < (ps ! j) a) \<and>
     partition_claimed ps l \<and> partition_claimed ps r"

text \<open>
  What \<open>validateRecursive\<close> checks, as a predicate: at every node with both children present,
  the pivot's coordinate on the node's axis is not less than the left child's pivot coordinate
  and not greater than the right child's.
\<close>

fun one_level :: "point list \<Rightarrow> node \<Rightarrow> bool" where
  "one_level ps Null = True"
| "one_level ps (Node i l r a) \<longleftrightarrow>
     (l \<noteq> Null \<and> r \<noteq> Null \<longrightarrow> \<not> (ps ! i) a < (ps ! idx l) a \<and> \<not> (ps ! i) a > (ps ! idx r) a) \<and>
     one_level ps l \<and> one_level ps r"

section \<open>Properties of the selectors\<close>

lemma mset_insert_by: "mset (insert_by cmp x xs) = add_mset x (mset xs)"
  by (induction xs) simp_all

lemma mset_sort_select: "mset (sort_select cmp n xs) = mset xs"
  by (induction xs) (simp_all add: sort_select_def mset_insert_by)

lemma set_insert_by: "set (insert_by cmp x xs) = insert x (set xs)"
  by (induction xs) auto

lemma sorted_insert_by:
  fixes key :: "nat \<Rightarrow> real"
  assumes "sorted (map key xs)"
  shows "sorted (map key (insert_by (\<lambda>l r. key l < key r) x xs))"
  using assms by (induction xs) (auto simp: set_insert_by)

lemma sorted_sort_select:
  fixes key :: "nat \<Rightarrow> real"
  shows "sorted (map key (sort_select (\<lambda>l r. key l < key r) n xs))"
  by (induction xs) (simp_all add: sort_select_def sorted_insert_by)

lemma sort_select_ok: "nth_element_ok sort_select"
  unfolding nth_element_ok_def nth_element_post_def
proof (intro allI impI)
  fix key :: "nat \<Rightarrow> real" and n xs
  let ?ys = "sort_select (\<lambda>l r. key l < key r) n xs"
  have le: "\<not> key (?ys ! j) < key (?ys ! i)" if "i \<le> j" "j < length ?ys" for i j
  proof -
    from that have "j < length (map key ?ys)" by simp
    with sorted_sort_select [of key n xs] that(1) have "map key ?ys ! i \<le> map key ?ys ! j"
      by (rule sorted_nth_mono)
    with that show ?thesis by simp
  qed
  show "mset ?ys = mset xs \<and>
    (\<forall>i j. i < n \<and> n \<le> j \<and> j < length ?ys \<longrightarrow> \<not> key (?ys ! j) < key (?ys ! i)) \<and>
    (\<forall>j. n \<le> j \<and> j < length ?ys \<longrightarrow> \<not> key (?ys ! j) < key (?ys ! n))"
    using le by (simp add: mset_sort_select)
qed


lemma nth_element_ok_post:
  "nth_element_ok sel \<Longrightarrow> n < length xs \<Longrightarrow>
     nth_element_post (axis_less ps ax) n xs (sel (axis_less ps ax) n xs)"
  unfolding nth_element_ok_def axis_less_def
  by (elim allE [where x = "\<lambda>i. (ps ! i) ax"] allE [where x = n] allE [where x = xs]) simp

lemma nth_element_ok_part:
  assumes "nth_element_ok sel" "n < length xs" "i \<le> n" "n \<le> j" "j < length xs"
  shows "(ps ! (sel (axis_less ps ax) n xs ! i)) ax \<le> (ps ! (sel (axis_less ps ax) n xs ! j)) ax"
proof -
  let ?ys = "sel (axis_less ps ax) n xs"
  from assms(1,2) have post: "nth_element_post (axis_less ps ax) n xs ?ys"
    by (rule nth_element_ok_post)
  then have "mset ?ys = mset xs" by (simp add: nth_element_post_def)
  then have len: "length ?ys = length xs" by (metis size_mset)
  show ?thesis
  proof (cases "i = n")
    case True
    from post have "n \<le> j \<and> j < length ?ys \<longrightarrow> \<not> axis_less ps ax (?ys ! j) (?ys ! n)"
      unfolding nth_element_post_def by (elim conjE allE)
    with assms len True show ?thesis by (simp add: axis_less_def)
  next
    case False
    from post have "i < n \<and> n \<le> j \<and> j < length ?ys \<longrightarrow> \<not> axis_less ps ax (?ys ! j) (?ys ! i)"
      unfolding nth_element_post_def by (elim conjE allE)
    with assms len False show ?thesis by (simp add: axis_less_def)
  qed
qed

lemma nth_element_ok_mset:
  "nth_element_ok sel \<Longrightarrow> n < length xs \<Longrightarrow> mset (sel (axis_less ps ax) n xs) = mset xs"
  using nth_element_ok_post [of sel n xs ps ax] by (simp add: nth_element_post_def)

lemma buildRecursive_Null [simp]: "buildRecursive DIM sel ps indices 0 depth = Null"
  by (simp add: buildRecursive.simps)

section \<open>Properties of the build\<close>

text \<open>One unfolding of the recursion, with what the selector guarantees.\<close>

lemma buildRecursive_Node:
  assumes "nth_element_ok sel" "0 < npoints" "npoints \<le> length indices"
    and mid_def: "mid = (npoints - 1) div 2"
  shows "\<exists>ys. mset ys = mset (take npoints indices) \<and> length ys = npoints \<and>
    (\<forall>i j. i \<le> mid \<and> mid \<le> j \<and> j < npoints \<longrightarrow>
        (ps ! (ys ! i)) (depth mod DIM) \<le> (ps ! (ys ! j)) (depth mod DIM)) \<and>
    buildRecursive DIM sel ps indices npoints depth =
       Node (ys ! mid)
         (buildRecursive DIM sel ps (ys @ drop npoints indices) mid (depth + 1))
         (buildRecursive DIM sel ps (drop (mid + 1) (ys @ drop npoints indices)) (npoints - mid - 1) (depth + 1))
         (depth mod DIM)"
proof -
  define ys where "ys = sel (axis_less ps (depth mod DIM)) mid (take npoints indices)"
  from assms have mid: "mid < length (take npoints indices)" by simp
  have ms: "mset ys = mset (take npoints indices)"
    unfolding ys_def using assms(1) mid by (rule nth_element_ok_mset)
  then have "length ys = length (take npoints indices)" by (metis size_mset)
  with assms have len: "length ys = npoints" by simp
  have part: "(ps ! (ys ! i)) (depth mod DIM) \<le> (ps ! (ys ! j)) (depth mod DIM)"
    if "i \<le> mid" "mid \<le> j" "j < npoints" for i j
    unfolding ys_def using assms(1) mid that(1,2)
    by (rule nth_element_ok_part) (use that assms in simp)
  have "(ys @ drop npoints indices) ! mid = ys ! mid"
    using len mid by (simp add: nth_append)
  moreover have "\<not> npoints \<le> 0" using assms(2) by simp
  ultimately have "buildRecursive DIM sel ps indices npoints depth =
       Node (ys ! mid)
         (buildRecursive DIM sel ps (ys @ drop npoints indices) mid (depth + 1))
         (buildRecursive DIM sel ps (drop (mid + 1) (ys @ drop npoints indices)) (npoints - mid - 1) (depth + 1))
         (depth mod DIM)"
    unfolding ys_def mid_def
    by (subst buildRecursive.simps) (simp only: Let_def if_False)
  with ms len part show ?thesis by blast
qed

lemma buildRecursive_indices:
  "nth_element_ok sel \<Longrightarrow> npoints \<le> length indices \<Longrightarrow>
     mset (node_indices (buildRecursive DIM sel ps indices npoints depth)) = mset (take npoints indices)"
proof (induction npoints arbitrary: indices depth rule: less_induct)
  case (less n)
  show ?case
  proof (cases "n = 0")
    case True
    then show ?thesis by simp
  next
    case False
    define mid where "mid = (n - 1) div 2"
    from False have mid: "mid < n" "n - mid - 1 < n" by (simp_all add: mid_def)
    from False have pos: "0 < n" by simp
    from buildRecursive_Node [OF less.prems(1) pos less.prems(2) mid_def, of ps depth DIM]
    obtain ys where ys: "mset ys = mset (take n indices)" "length ys = n"
      and eq: "buildRecursive DIM sel ps indices n depth =
       Node (ys ! mid)
         (buildRecursive DIM sel ps (ys @ drop n indices) mid (depth + 1))
         (buildRecursive DIM sel ps (drop (mid + 1) (ys @ drop n indices)) (n - mid - 1) (depth + 1))
         (depth mod DIM)"
      by blast
    have L: "mset (node_indices (buildRecursive DIM sel ps (ys @ drop n indices) mid (depth + 1))) = mset (take mid ys)"
      using less.IH [OF mid(1) less.prems(1), of "ys @ drop n indices" "depth + 1"] mid ys(2) by simp
    have R: "mset (node_indices (buildRecursive DIM sel ps (drop (mid + 1) (ys @ drop n indices)) (n - mid - 1) (depth + 1))) = mset (drop (mid + 1) ys)"
      using less.IH [OF mid(2) less.prems(1), of "drop (mid + 1) (ys @ drop n indices)" "depth + 1"] mid ys(2) less.prems(2) by simp
    have "mset (node_indices (buildRecursive DIM sel ps indices n depth))
          = mset (take mid ys @ ys ! mid # drop (mid + 1) ys)"
      unfolding eq using L R by simp
    also have "take mid ys @ ys ! mid # drop (mid + 1) ys = ys"
      using mid ys(2) id_take_nth_drop [of mid ys] by simp
    finally show ?thesis using ys(1) by simp
  qed
qed

lemma buildRecursive_partition:
  "nth_element_ok sel \<Longrightarrow> npoints \<le> length indices \<Longrightarrow>
     partition_inv ps (buildRecursive DIM sel ps indices npoints depth)"
proof (induction npoints arbitrary: indices depth rule: less_induct)
  case (less n)
  show ?case
  proof (cases "n = 0")
    case True
    then show ?thesis by simp
  next
    case False
    define mid where "mid = (n - 1) div 2"
    from False have mid: "mid < n" "n - mid - 1 < n" and pos: "0 < n" by (simp_all add: mid_def)
    from buildRecursive_Node [OF less.prems(1) pos less.prems(2) mid_def, of ps depth DIM]
    obtain ys where ys: "length ys = n"
      and part: "\<And>i j. i \<le> mid \<Longrightarrow> mid \<le> j \<Longrightarrow> j < n \<Longrightarrow>
        (ps ! (ys ! i)) (depth mod DIM) \<le> (ps ! (ys ! j)) (depth mod DIM)"
      and eq: "buildRecursive DIM sel ps indices n depth =
       Node (ys ! mid)
         (buildRecursive DIM sel ps (ys @ drop n indices) mid (depth + 1))
         (buildRecursive DIM sel ps (drop (mid + 1) (ys @ drop n indices)) (n - mid - 1) (depth + 1))
         (depth mod DIM)"
      by blast
    let ?l = "buildRecursive DIM sel ps (ys @ drop n indices) mid (depth + 1)"
    let ?r = "buildRecursive DIM sel ps (drop (mid + 1) (ys @ drop n indices)) (n - mid - 1) (depth + 1)"
    have "mset (node_indices ?l) = mset (take mid ys)"
      using buildRecursive_indices [OF less.prems(1), of mid "ys @ drop n indices" DIM ps "depth + 1"] mid ys
      by simp
    then have L: "set (node_indices ?l) = set (take mid ys)" by (rule mset_eq_setD)
    have "mset (node_indices ?r) = mset (drop (mid + 1) ys)"
      using buildRecursive_indices [OF less.prems(1), of "n - mid - 1" "drop (mid + 1) (ys @ drop n indices)" DIM ps "depth + 1"]
        mid ys less.prems(2) by simp
    then have R: "set (node_indices ?r) = set (drop (mid + 1) ys)" by (rule mset_eq_setD)
    have l: "(ps ! j) (depth mod DIM) \<le> (ps ! (ys ! mid)) (depth mod DIM)" if "j \<in> set (node_indices ?l)" for j
    proof -
      from that L have "j \<in> set (take mid ys)" by simp
      then obtain i where "i < length (take mid ys)" "take mid ys ! i = j"
        unfolding in_set_conv_nth by blast
      with mid ys have "i < mid" "j = ys ! i" by simp_all
      with part [of i mid] mid show ?thesis by simp
    qed
    have r: "(ps ! (ys ! mid)) (depth mod DIM) \<le> (ps ! j) (depth mod DIM)" if "j \<in> set (node_indices ?r)" for j
    proof -
      from that R have "j \<in> set (drop (mid + 1) ys)" by simp
      then obtain i where "i < length (drop (mid + 1) ys)" "drop (mid + 1) ys ! i = j"
        unfolding in_set_conv_nth by blast
      with mid ys have "mid + 1 + i < n" "j = ys ! (mid + 1 + i)" by simp_all
      with part [of mid "mid + 1 + i"] show ?thesis by simp
    qed
    have "partition_inv ps ?l"
      using less.IH [OF mid(1) less.prems(1), of "ys @ drop n indices" "depth + 1"] mid ys by simp
    moreover have "partition_inv ps ?r"
      using less.IH [OF mid(2) less.prems(1), of "drop (mid + 1) (ys @ drop n indices)" "depth + 1"]
        mid ys less.prems(2) by simp
    ultimately show ?thesis unfolding eq using l r by simp
  qed
qed

lemma floorlog_half: "0 < n \<Longrightarrow> floorlog 2 n = 1 + floorlog 2 (n div 2)"
  by (subst compute_floorlog) simp

lemma buildRecursive_levels:
  "levels (buildRecursive DIM sel ps indices npoints depth) = floorlog 2 npoints"
proof (induction DIM sel ps indices npoints depth rule: buildRecursive.induct)
  case (1 DIM sel ps indices npoints depth)
  show ?case
  proof (cases "npoints \<le> 0")
    case True
    then show ?thesis by (subst buildRecursive.simps) (simp add: floorlog_def)
  next
    case False
    note IH = "1.IH" [OF False refl refl refl]
    from False have half: "npoints - (npoints - 1) div 2 - 1 = npoints div 2"
      and le: "(npoints - 1) div 2 \<le> npoints div 2"
      by presburger+
    from le have "floorlog 2 ((npoints - 1) div 2) \<le> floorlog 2 (npoints div 2)"
      by (rule floorlog_mono)
    then have "1 + max (floorlog 2 ((npoints - 1) div 2)) (floorlog 2 (npoints - (npoints - 1) div 2 - 1))
      = 1 + floorlog 2 (npoints div 2)"
      unfolding half by simp
    also from False have "\<dots> = floorlog 2 npoints"
      by (intro floorlog_half [symmetric]) simp
    finally show ?thesis using False
      by (subst buildRecursive.simps) (simp only: Let_def if_False levels.simps IH)
  qed
qed

text \<open>
  Three equal points: whatever a conforming \<open>std::nth_element\<close> does, the right subtree of
  the root holds a point that is not strictly greater than the pivot.
\<close>

lemma equal_points_not_claimed:
  assumes "nth_element_ok sel"
  shows "\<not> partition_claimed [p, p, p] (root (build DIM sel [p, p, p]))"
proof -
  let ?ps = "[p, p, p]"
  have three: "(3::nat) \<le> length [0..<3]" "(0::nat) < 3" "(1::nat) = (3 - 1) div 2" by simp_all
  from buildRecursive_Node [OF assms three(2,1,3), of ?ps 0 DIM]
  obtain ys where ys: "mset ys = mset (take 3 [0..<3])" "length ys = 3"
    and eq: "buildRecursive DIM sel ?ps [0..<3] 3 0 =
       Node (ys ! 1) (buildRecursive DIM sel ?ps (ys @ drop 3 [0..<3]) 1 (0 + 1))
         (buildRecursive DIM sel ?ps (drop (1 + 1) (ys @ drop 3 [0..<3])) (3 - 1 - 1) (0 + 1)) (0 mod DIM)"
    by blast
  from ys(2) obtain a b c where abc: "ys = [a, b, c]"
    by (auto simp: numeral_3_eq_3 length_Suc_conv)
  let ?r = "buildRecursive DIM sel ?ps (drop (1 + 1) (ys @ drop 3 [0..<3])) (3 - 1 - 1) (0 + 1)"
  have "mset (node_indices ?r) = mset (take (3 - 1 - 1) (drop (1 + 1) (ys @ drop 3 [0..<3])))"
    using assms ys(2) by (intro buildRecursive_indices) simp_all
  also have "\<dots> = mset [c]" by (simp add: abc)
  finally have "set (node_indices ?r) = set [c]" by (rule mset_eq_setD)
  then have r: "c \<in> set (node_indices ?r)" by simp
  from ys(1) have "set ys = set (take 3 [0..<3])" by (rule mset_eq_setD)
  then have "b \<in> {0..<3}" "c \<in> {0..<3}" unfolding abc by auto
  then have "b < 3" "c < 3" by simp_all
  then have same: "?ps ! b = p" "?ps ! c = p"
    by (auto simp: less_Suc_eq numeral_3_eq_3)
  have "\<not> partition_claimed ?ps (Node b l ?r ax)" for l ax
  proof
    assume "partition_claimed ?ps (Node b l ?r ax)"
    with r have "(?ps ! b) ax < (?ps ! c) ax" by (simp only: partition_claimed.simps)
    then show False unfolding same by simp
  qed
  moreover have "ys ! 1 = b" by (simp add: abc)
  ultimately have "\<not> partition_claimed ?ps (buildRecursive DIM sel ?ps [0..<3] 3 0)"
    unfolding eq by simp
  moreover have "length ?ps = 3" by simp
  ultimately show ?thesis unfolding build_def by (simp only: kdtree.select_convs simp_thms)
qed


section \<open>Properties of the validator\<close>

lemma idx_in_node_indices: "t \<noteq> Null \<Longrightarrow> idx t \<in> set (node_indices t)"
  by (cases t) simp_all

lemma partition_inv_one_level: "partition_inv ps t \<Longrightarrow> one_level ps t"
proof (induction t)
  case Null
  show ?case by simp
next
  case (Node i l r a)
  then have "one_level ps l" "one_level ps r" by simp_all
  moreover have "\<not> (ps ! i) a < (ps ! idx l) a" if "l \<noteq> Null"
    using Node.prems idx_in_node_indices [OF that] by (auto simp: not_less)
  moreover have "\<not> (ps ! i) a > (ps ! idx r) a" if "r \<noteq> Null"
    using Node.prems idx_in_node_indices [OF that] by (auto simp: not_less)
  ultimately show ?case by simp
qed

lemma validateRecursive_iff: "validateRecursive ps t depth = Inr () \<longleftrightarrow> one_level ps t"
proof (induction t arbitrary: depth)
  case Null
  show ?case by simp
next
  case (Node i l r a)
  have l: "(if l \<noteq> Null then validateRecursive ps l (depth + 1) else Inr ()) = Inr () \<longleftrightarrow> one_level ps l"
    using Node.IH(1) [of "depth + 1"] by simp
  have r: "(if r \<noteq> Null then validateRecursive ps r (depth + 1) else Inr ()) = Inr () \<longleftrightarrow> one_level ps r"
    using Node.IH(2) [of "depth + 1"] by simp
  show ?case
    unfolding validateRecursive.simps one_level.simps l [symmetric] r [symmetric]
    by (simp split: sum.split)
qed

lemma validate_iff: "validate t \<longleftrightarrow> one_level (points t) (root t)"
proof -
  have "validate t \<longleftrightarrow> validateRecursive (points t) (root t) 0 = Inr ()"
    by (simp add: validate_def split: sum.split)
  then show ?thesis by (simp add: validateRecursive_iff)
qed

section \<open>Further facts about the built tree\<close>

lemma build_partition:
  "nth_element_ok sel \<Longrightarrow> partition_inv ps (root (build DIM sel ps))"
  by (simp add: build_def buildRecursive_partition)

lemma log2_4: "log 2 (4::real) = 2"
proof -
  have "log 2 (4::real) = log 2 (2 ^ 2)" by simp
  also have "\<dots> = 2" by (subst log_nat_power) simp_all
  finally show ?thesis .
qed

lemma ceiling_log2_3: "\<lceil>log 2 (3::real)\<rceil> = 2"
proof (rule ceiling_unique)
  have "log 2 2 < log 2 (3::real)" by (subst log_less_cancel_iff) simp_all
  then show "of_int 2 - 1 < log 2 (3::real)" by simp
  have "log 2 (3::real) \<le> log 2 4" by (subst log_le_cancel_iff) simp_all
  then show "log 2 (3::real) \<le> of_int 2" by (simp add: log2_4)
qed

lemma floorlog_floor: "0 < n \<Longrightarrow> int (floorlog 2 n) - 1 = \<lfloor>log 2 (real n)\<rfloor>"
  by (simp add: floorlog_def)

section \<open>Facts for evaluating the model on concrete inputs\<close>

lemma build_points [simp]: "points (build DIM sel ps) = ps"
  by (simp add: build_def)

lemma build_single: "root (build DIM sel [p]) = Node (sel (axis_less [p] (0 mod DIM)) 0 [0] ! 0) Null Null (0 mod DIM)"
  by (simp add: build_def buildRecursive.simps [of _ _ _ _ "Suc 0"] Let_def)

lemma build_empty [simp]: "root (build DIM sel []) = Null"
  by (simp add: build_def)

lemma point_of_apply [simp]:
  "point_of cs i = (if i < length cs then cs ! i else 0)"
  by (simp add: point_of_def)

section \<open>Properties of the bounded queue\<close>

lemma find_if_split:
  "\<exists>xs ys. es = xs @ ys \<and> find_if P es = length xs \<and> (\<forall>e \<in> set xs. \<not> P e) \<and> (ys \<noteq> [] \<longrightarrow> P (hd ys))"
proof (induction es)
  case Nil
  show ?case by simp
next
  case (Cons e es)
  show ?case
  proof (cases "P e")
    case True
    then have "e # es = [] @ (e # es) \<and> find_if P (e # es) = length ([]::'a list) \<and>
      (\<forall>e \<in> set []. \<not> P e) \<and> (e # es \<noteq> [] \<longrightarrow> P (hd (e # es)))" by simp
    then show ?thesis by blast
  next
    case False
    from Cons.IH obtain xs ys where "es = xs @ ys" "find_if P es = length xs"
      "\<forall>e \<in> set xs. \<not> P e" "ys \<noteq> [] \<longrightarrow> P (hd ys)" by blast
    with False have "e # es = (e # xs) @ ys \<and> find_if P (e # es) = length (e # xs) \<and>
      (\<forall>e \<in> set (e # xs). \<not> P e) \<and> (ys \<noteq> [] \<longrightarrow> P (hd ys))" by simp
    then show ?thesis by blast
  qed
qed

lemma push_elements: "elements (push val q) =
  take (bound q) (take (find_if (less_pair val) (elements q)) (elements q) @ val # drop (find_if (less_pair val) (elements q)) (elements q))"
proof -
  have "(if length es > b then take b es else es) = take b es" for b and es :: "('a \<times> nat) list"
    by simp
  then show ?thesis unfolding push_def Let_def by (simp only:) simp
qed

lemma push_bound [simp]: "bound (push val q) = bound q"
  by (simp add: push_def Let_def)

lemma push_split:
  "\<exists>xs ys. elements q = xs @ ys \<and> elements (push val q) = take (bound q) (xs @ val # ys) \<and>
     (\<forall>e \<in> set xs. \<not> less_pair val e) \<and> (ys \<noteq> [] \<longrightarrow> less_pair val (hd ys))"
proof -
  from find_if_split [of "elements q" "less_pair val"]
  obtain xs ys where *: "elements q = xs @ ys" "find_if (less_pair val) (elements q) = length xs"
    "\<forall>e \<in> set xs. \<not> less_pair val e" "ys \<noteq> [] \<longrightarrow> less_pair val (hd ys)" by blast
  then have "elements (push val q) = take (bound q) (xs @ val # ys)"
    by (simp add: push_elements)
  with * show ?thesis by blast
qed

lemma knn_zero_faults:
  "t \<noteq> Null \<Longrightarrow> elements queue = [] \<Longrightarrow> bound queue = 0 \<Longrightarrow>
     knnSearchRecursive ar DIM ps query t queue 0 = Inl Back_Of_Empty"
proof (induction t arbitrary: queue)
  case Null
  then show ?case by simp
next
  case (Node i l r a)
  define queue1 where "queue1 = push (distance ar DIM query (ps ! i), i) queue"
  define near where "near = (if query a < (ps ! i) a then l else r)"
  have yes: "length (elements queue1) < 0 \<longleftrightarrow> False" by simp
  from Node.prems have e1: "elements queue1 = []" "bound queue1 = 0"
    by (simp_all add: queue1_def push_elements)
  have "knnSearchRecursive ar DIM ps query near queue1 0 = Inl Back_Of_Empty \<or>
        knnSearchRecursive ar DIM ps query near queue1 0 = Inr queue1"
  proof (cases "near = Null")
    case True
    then show ?thesis by simp
  next
    case False
    then show ?thesis using Node.IH e1 unfolding near_def by (auto split: if_splits)
  qed
  then show ?case
    unfolding knnSearchRecursive.simps Let_def queue1_def [symmetric] near_def [symmetric]
    using e1 by (auto simp: queue_back_def)
qed

section \<open>The claims about the build\<close>

text \<open>
  Every theorem about \<open>build\<close> assumes \<open>0 < DIM\<close>, since \<open>depth % PointT::DIM\<close> is undefined
  for a point type of dimension zero, and, where the contents of the tree matter, that
  \<open>std::nth_element\<close> meets its postcondition.
\<close>

text \<open>
  Claim C4.  After \<open>build(points)\<close>, \<open>validate()\<close> returns true, and at every node with both
  children present the pivot's coordinate on the node's axis is not less than the left
  child's pivot coordinate and not greater than the right child's.  The point set may even be
  empty.
\<close>

theorem validate_after_build:
  assumes "0 < DIM" and "nth_element_ok nth_element"
  shows "validate (build DIM nth_element ps) \<and> one_level ps (root (build DIM nth_element ps))"
proof -
  from assms(2) have "one_level ps (root (build DIM nth_element ps))"
    by (intro partition_inv_one_level build_partition)
  moreover have "points (build DIM nth_element ps) = ps" by (simp add: build_def)
  ultimately show ?thesis by (simp add: validate_iff)
qed

text \<open>
  The theorem at five points in the plane, where the root and no other node has two children.
\<close>

theorem validate_after_build_witness:
  "(0::nat) < 2 \<and> nth_element_ok sort_select \<and>
   validate (build 2 sort_select [point_of [5, 1], point_of [3, 7], point_of [3, 2], point_of [9, 9], point_of [4, 0]]) \<and>
   root (build 2 sort_select [point_of [5, 1], point_of [3, 7], point_of [3, 2], point_of [9, 9], point_of [4, 0]])
     = Node 4 (Node 2 Null (Node 1 Null Null 0) 1) (Node 0 Null (Node 3 Null Null 0) 1) 0"
proof -
  have tree: "root (build 2 sort_select [point_of [5, 1], point_of [3, 7], point_of [3, 2], point_of [9, 9], point_of [4, 0]])
     = Node 4 (Node 2 Null (Node 1 Null Null 0) 1) (Node 0 Null (Node 3 Null Null 0) 1) 0"
    by code_simp
  have pos: "(0::nat) < 2" by simp
  from validate_after_build [OF pos sort_select_ok] tree pos sort_select_ok
  show ?thesis by blast
qed

text \<open>
  Claim C5, as stated: in the built tree every point of a right subtree is strictly greater
  than the pivot on the node's axis.  It fails for three equal points: whichever element
  \<open>std::nth_element\<close> leaves at the median position, the right range holds a point with
  the same coordinate (lemma \<open>equal_points_not_claimed\<close>).  The counterexample runs the
  build with the sorting selector.
\<close>

theorem partition_claimed_counterexample:
  "\<not> partition_claimed [point_of [1], point_of [1], point_of [1]]
       (root (build 1 sort_select [point_of [1], point_of [1], point_of [1]]))"
  by code_simp

text \<open>
  Claim C5, amended.  At every node of the built tree, every point of the left subtree has a
  coordinate on the node's axis that is smaller than or equal to the pivot's, and every point
  of the right subtree has one that is greater than or equal to the pivot's.
\<close>

theorem build_partition_inv:
  assumes "0 < DIM" and "nth_element_ok nth_element"
  shows "partition_inv ps (root (build DIM nth_element ps))"
  using assms(2) by (rule build_partition)

theorem build_partition_inv_witness:
  "(0::nat) < 1 \<and> nth_element_ok sort_select \<and>
   root (build 1 sort_select [point_of [1], point_of [1], point_of [1]]) = Node 1 (Node 2 Null Null 0) (Node 0 Null Null 0) 0 \<and>
   partition_inv [point_of [1], point_of [1], point_of [1]] (Node 1 (Node 2 Null Null 0) (Node 0 Null Null 0) 0)"
proof -
  have tree: "root (build 1 sort_select [point_of [1], point_of [1], point_of [1]]) = Node 1 (Node 2 Null Null 0) (Node 0 Null Null 0) 0"
    by code_simp
  have pos: "(0::nat) < 1" by simp
  from build_partition_inv [OF pos sort_select_ok, of "[point_of [1], point_of [1], point_of [1]]"]
  show ?thesis unfolding tree using pos sort_select_ok by blast
qed

text \<open>
  Claim C9, as stated: the height of the tree built from \<open>n \<ge> 1\<close> points is \<open>\<lceil>log\<^sub>2 n\<rceil>\<close>.
  Counting the edges of the longest path from the root, three points give height 1 and not
  \<open>\<lceil>log\<^sub>2 3\<rceil> = 2\<close>; counting the nodes of that path (\<open>levels\<close>), four points give 3 and not
  \<open>\<lceil>log\<^sub>2 4\<rceil> = 2\<close>.
\<close>

theorem build_height_counterexample:
  "int (levels (root (build 1 sort_select [point_of [0], point_of [1], point_of [2]]))) - 1
     \<noteq> \<lceil>log 2 (real (length [point_of [0], point_of [1], point_of [2]]))\<rceil> \<and>
   int (levels (root (build 1 sort_select [point_of [0], point_of [1], point_of [2], point_of [3]])))
     \<noteq> \<lceil>log 2 (real (length [point_of [0], point_of [1], point_of [2], point_of [3]]))\<rceil>"
proof -
  have "levels (root (build 1 sort_select [point_of [0], point_of [1], point_of [2]])) = 2"
    by code_simp
  moreover have "levels (root (build 1 sort_select [point_of [0], point_of [1], point_of [2], point_of [3]])) = 3"
    by code_simp
  ultimately show ?thesis by (simp add: ceiling_log2_3 log2_4)
qed

text \<open>
  Claim C9, amended.  For every input of \<open>n \<ge> 1\<close> points, whatever their coordinates and
  whatever \<open>std::nth_element\<close> does with them, the longest path from the root of the built
  tree has exactly \<open>\<lfloor>log\<^sub>2 n\<rfloor>\<close> edges, that is \<open>\<lfloor>log\<^sub>2 n\<rfloor> + 1\<close> nodes.
\<close>

theorem build_height:
  assumes "0 < DIM" and "ps \<noteq> []"
  shows "int (levels (root (build DIM nth_element ps))) - 1 = \<lfloor>log 2 (real (length ps))\<rfloor>"
proof -
  from assms(2) have "0 < length ps" by simp
  then have "int (floorlog 2 (length ps)) - 1 = \<lfloor>log 2 (real (length ps))\<rfloor>"
    by (rule floorlog_floor)
  then show ?thesis by (simp only: build_def buildRecursive_levels kdtree.select_convs)
qed

theorem build_height_witness:
  "(0::nat) < 1 \<and> [point_of [0], point_of [1], point_of [2]] \<noteq> [] \<and>
   levels (root (build 1 sort_select [point_of [0], point_of [1], point_of [2]])) = 2 \<and>
   \<lfloor>log 2 (real (length [point_of [0], point_of [1], point_of [2]]))\<rfloor> = 1"
proof -
  have lv: "levels (root (build 1 sort_select [point_of [0], point_of [1], point_of [2]])) = 2"
    by code_simp
  have pos: "(0::nat) < 1" and ne: "[point_of [0], point_of [1], point_of [2]] \<noteq> []" by simp_all
  from build_height [OF pos ne, of sort_select] lv pos ne
  show ?thesis by simp
qed

text \<open>
  Claim C10.  After \<open>build(points)\<close> on \<open>n\<close> points, the multiset of the indices stored at the
  nodes of the tree is exactly \<open>{0, ..., n - 1}\<close>: every index at exactly one node.
\<close>

theorem build_indices_exact:
  assumes "0 < DIM" and "nth_element_ok nth_element"
  shows "mset (node_indices (root (build DIM nth_element ps))) = mset [0..<length ps]"
  using assms(2) by (simp add: build_def buildRecursive_indices)

theorem build_indices_exact_witness:
  "(0::nat) < 2 \<and> nth_element_ok sort_select \<and>
   node_indices (root (build 2 sort_select [point_of [0, 0], point_of [1, 1], point_of [2, 2], point_of [9, 9]])) = [1, 0, 2, 3] \<and>
   mset [1, 0, 2, 3] = mset [0..<length [point_of [0, 0], point_of [1, 1], point_of [2, 2], point_of [9, 9]]]"
proof -
  have ixs: "node_indices (root (build 2 sort_select [point_of [0, 0], point_of [1, 1], point_of [2, 2], point_of [9, 9]])) = [1, 0, 2, 3]"
    by code_simp
  have pos: "(0::nat) < 2" by simp
  from build_indices_exact [OF pos sort_select_ok, of "[point_of [0, 0], point_of [1, 1], point_of [2, 2], point_of [9, 9]]"]
  show ?thesis unfolding ixs using pos sort_select_ok by blast
qed

section \<open>The claims about the queries\<close>

text \<open>
  Claim C8, as stated: on a tree built from zero points \<open>nearest\<close> returns a defined
  invalid-index sentinel and the distance \<open>+infinity\<close>.  The index returned is the local
  \<open>guess\<close>, which was never assigned, and the distance is \<open>DBL_MAX\<close>, a finite number.  No
  arithmetic takes place.
\<close>

theorem empty_tree_nearest_counterexample:
  "\<forall>ar. nnSearch ar 2 (build 2 sort_select []) (point_of [0, 0]) = (None, Finite ((2 ^ 53 - 1) * 2 ^ 971))"
  by (simp add: nnSearch_def DBL_MAX_def)

text \<open>
  Claim C8, amended.  On a tree built from zero points, \<open>knnSearch\<close> (for every \<open>k \<ge> 0\<close>) and
  \<open>rangequery\<close> return empty sequences, and the distance that \<open>nnSearch\<close> reports is
  \<open>DBL_MAX\<close>.  Nothing is said about the index that \<open>nnSearch\<close> returns.
\<close>

theorem empty_tree_queries:
  assumes "0 < DIM"
  shows "knnSearch ar DIM (build DIM nth_element []) query k = Inr [] \<and>
         rangequery ar DIM (build DIM nth_element []) query radius = [] \<and>
         snd (nnSearch ar DIM (build DIM nth_element []) query) = DBL_MAX"
  by (simp add: knnSearch_def rangequery_def nnSearch_def)

theorem empty_tree_queries_witness:
  "\<forall>ar. (0::nat) < 2 \<and>
     knnSearch ar 2 (build 2 sort_select []) (point_of [0, 0]) 3 = Inr [] \<and>
     rangequery ar 2 (build 2 sort_select []) (point_of [0, 0]) (Finite 1) = [] \<and>
     snd (nnSearch ar 2 (build 2 sort_select []) (point_of [0, 0])) = DBL_MAX"
proof
  fix ar
  have pos: "(0::nat) < 2" by simp
  from empty_tree_queries [OF pos, of ar sort_select "point_of [0, 0]" 3 "Finite 1"] pos
  show "(0::nat) < 2 \<and>
     knnSearch ar 2 (build 2 sort_select []) (point_of [0, 0]) 3 = Inr [] \<and>
     rangequery ar 2 (build 2 sort_select []) (point_of [0, 0]) (Finite 1) = [] \<and>
     snd (nnSearch ar 2 (build 2 sort_select []) (point_of [0, 0])) = DBL_MAX"
    by simp
qed

text \<open>
  Claim C6, as stated: among entries of equal distance, a newly inserted entry lands before
  the entries inserted earlier.  The comparison is \<open>operator<\<close> of the pairs, and \<open>push\<close>
  looks for the first element that is greater than the new one: after \<open>(1, 5)\<close>, the entry
  \<open>(1, 7)\<close> of the same distance is placed behind it.
\<close>

theorem push_equal_distance_counterexample:
  "elements (push (1 :: real, 7) \<lparr>bound = 2, elements = [(1, 5)]\<rparr>) = [(1, 5), (1, 7)] \<and>
   elements (push (1 :: real, 7) \<lparr>bound = 2, elements = [(1, 5)]\<rparr>) \<noteq> [(1, 7), (1, 5)]"
  by (simp add: push_def less_pair_def)

text \<open>
  Claim C6, amended.  \<open>push\<close> places the new entry immediately before the first existing entry
  that is strictly greater than it in the lexicographic order of (distance, index), and then
  drops what exceeds the capacity: every entry before the new one has a smaller distance, or
  the same distance and a smaller or equal index, and the entry after it, if any, has a greater
  distance, or the same distance and a greater index.
\<close>

theorem push_position:
  "\<exists>xs ys. elements q = xs @ ys \<and>
     elements (push val q) = take (bound q) (xs @ val # ys) \<and>
     (\<forall>e \<in> set xs. fst e \<le> fst val \<and> (fst e = fst val \<longrightarrow> snd e \<le> snd val)) \<and>
     (ys \<noteq> [] \<longrightarrow> fst val \<le> fst (hd ys) \<and> (fst (hd ys) = fst val \<longrightarrow> snd val < snd (hd ys)))"
proof -
  from push_split [of q val] obtain xs ys where *: "elements q = xs @ ys"
    "elements (push val q) = take (bound q) (xs @ val # ys)"
    "\<forall>e \<in> set xs. \<not> less_pair val e" "ys \<noteq> [] \<longrightarrow> less_pair val (hd ys)" by blast
  from *(3) have "\<forall>e \<in> set xs. fst e \<le> fst val \<and> (fst e = fst val \<longrightarrow> snd e \<le> snd val)"
    by (auto simp: less_pair_def not_less)
  moreover from *(4) have "ys \<noteq> [] \<longrightarrow> fst val \<le> fst (hd ys) \<and> (fst (hd ys) = fst val \<longrightarrow> snd val < snd (hd ys))"
    by (auto simp: less_pair_def not_less)
  ultimately show ?thesis using *(1,2) by blast
qed

text \<open>The theorem on a queue with three entries of the same distance.\<close>

theorem push_position_witness:
  "elements (push (1 :: real, 4) \<lparr>bound = 3, elements = [(1, 2), (1, 5), (1, 8)]\<rparr>) = [(1, 2), (1, 4), (1, 5)] \<and>
   (\<exists>xs ys. [(1 :: real, 2), (1, 5), (1, 8)] = xs @ ys \<and>
     [(1, 2), (1, 4), (1, 5)] = take 3 (xs @ (1, 4) # ys) \<and>
     (\<forall>e \<in> set xs. fst e \<le> (1::real) \<and> (fst e = 1 \<longrightarrow> snd e \<le> (4::nat))) \<and>
     (ys \<noteq> [] \<longrightarrow> 1 \<le> fst (hd ys) \<and> (fst (hd ys) = 1 \<longrightarrow> 4 < snd (hd ys))))"
proof -
  have res: "elements (push (1 :: real, 4) \<lparr>bound = 3, elements = [(1, 2), (1, 5), (1, 8)]\<rparr>) = [(1, 2), (1, 4), (1, 5)]"
    by (simp add: push_def less_pair_def)
  from push_position [of "\<lparr>bound = 3, elements = [(1 :: real, 2), (1, 5), (1, 8)]\<rparr>" "(1, 4)"]
  show ?thesis unfolding res by simp
qed

text \<open>
  Claim C7: \<open>knn(query, 0)\<close> returns an empty sequence without fault on any tree.  On a tree
  with one point the code pushes into the queue of capacity zero, which stays empty, finds
  \<open>(int)queue.size() < k\<close> false and evaluates \<open>queue.back()\<close> on the empty vector, whatever
  the arithmetic has computed.
\<close>

theorem knnSearch_zero_faults:
  "knnSearch ar 1 (build 1 sort_select [point_of [0]]) (point_of [0]) 0 = Inl Back_Of_Empty"
proof -
  have "root (build 1 sort_select [point_of [0]]) = Node 0 Null Null 0"
    by (simp add: build_single sort_select_def)
  then show ?thesis
    unfolding knnSearch_def build_points
    by (simp add: Let_def push_def queue_back_def)
qed

end
